theory Spec2Isabelle
  imports Main "HOL-Library.Sublist" "HOL-Library.Word"
begin

section \<open>Go library functions used by the sources\<close>

text \<open>
  Go strings are byte sequences; they are modelled as \<^typ>\<open>string\<close> (a list of bytes).
  The placeholder \<open>?\<close> is the single byte 0x3F, which never occurs inside a multi-byte
  UTF-8 sequence, so working on bytes is exact.
\<close>

text \<open>\<^verbatim>\<open>strings.Repeat(s, count)\<close> for a count that is a length (never negative).\<close>

definition strings_Repeat :: "string \<Rightarrow> nat \<Rightarrow> string" where
  "strings_Repeat s count = concat (replicate count s)"

text \<open>\<^verbatim>\<open>strings.TrimRight(s, cutset)\<close>: drops every trailing byte that is in the cutset.\<close>

definition strings_TrimRight :: "string \<Rightarrow> string \<Rightarrow> string" where
  "strings_TrimRight s cutset = rev (dropWhile (\<lambda>c. c \<in> set cutset) (rev s))"

text \<open>
  \<^verbatim>\<open>strings.Replace(s, old, new, 1)\<close>: the first (leftmost) occurrence of \<open>old\<close> in
  \<open>s\<close> is replaced by \<open>new\<close>; without an occurrence \<open>s\<close> is returned as it is.
\<close>

fun strings_Replace1 :: "string \<Rightarrow> string \<Rightarrow> string \<Rightarrow> string" where
  "strings_Replace1 [] old new = (if old = [] then new else [])"
| "strings_Replace1 (c # s) old new =
     (if prefix old (c # s) then new @ drop (length old) (c # s)
      else c # strings_Replace1 s old new)"

text \<open>
  Go's \<^verbatim>\<open>int\<close> is a 64-bit two's complement integer on the platforms the tool runs on.
  It is modelled as \<^typ>\<open>int\<close> with the wrap-around of every addition and multiplication
  that can overflow written out.
\<close>

definition wrap64 :: "int \<Rightarrow> int" where
  "wrap64 x = (x + 2 ^ 63) mod 2 ^ 64 - 2 ^ 63"

definition max_int64 :: int where
  "max_int64 = 2 ^ 63 - 1"

section \<open>Bound values and panics\<close>

text \<open>
  A bound value is a Go \<^verbatim>\<open>interface{}\<close>. The code inspects it with
  \<^verbatim>\<open>reflect.TypeOf(v).Kind()\<close>, so the model distinguishes the nil interface
  (\<^verbatim>\<open>reflect.TypeOf(nil)\<close> is nil and calling \<^verbatim>\<open>Kind\<close> on it is a nil dereference),
  a value of slice kind with its elements, and a value of any other kind with a payload
  of type \<open>'a\<close>.
\<close>

datatype 'a gvalue = NilInterface | Scalar 'a | Slice "'a gvalue list"

text \<open>
  The ways the modelled code can panic: the nil dereference of
  \<^verbatim>\<open>reflect.TypeOf(nil).Kind()\<close>, the explicit
  \<^verbatim>\<open>panic(fmt.Sprintf("set cql pretty, unknown type %v", ct))\<close> of bag.go, the panic of
  the \<^verbatim>\<open>CQLPretty\<close> of another type on a type/value mismatch, and the run-time checks of
  indexing, slicing and \<^verbatim>\<open>make\<close>.
\<close>

datatype panic =
    NilDereference
  | SetCqlPrettyUnknownType
  | CqlPrettyMismatch
  | IndexOutOfRange
  | SliceBoundsOutOfRange
  | MakesliceLenOutOfRange


section \<open>typedef: SimpleType and BagType (pkg/typedef/bag.go)\<close>

text \<open>
  Modelled from the spec: the \<^verbatim>\<open>CQLPretty\<close> of a type that holds one \<open>?\<close>, none of which
  but the one of \<^verbatim>\<open>BagType\<close> is among the sources. The specification gives the protocol:
  \<^verbatim>\<open>CQLPretty\<close> "replaces the leftmost \<open>?\<close> in query with a printed literal derived from
  the front of remaining-values, returning the number of values consumed", and it
  "panics (fatal) on a type/value mismatch". The printed literal is the parameter
  \<open>literal\<close>: it gives the CQL literal of a value, or \<open>None\<close> when the value does not match
  the type. Without a value nothing is consumed, as in \<^verbatim>\<open>BagType.CQLPretty\<close>.
\<close>

definition replace_holder ::
  "('a gvalue \<Rightarrow> string option) \<Rightarrow> string \<Rightarrow> 'a gvalue list \<Rightarrow> panic + string \<times> int" where
  "replace_holder literal query value =
     (case value of
        [] \<Rightarrow> Inr (query, 0)
      | v # _ \<Rightarrow>
          (case literal v of
             None \<Rightarrow> Inl CqlPrettyMismatch
           | Some l \<Rightarrow> Inr (strings_Replace1 query ''?'' l, 1)))"

text \<open>
  Modelled from the spec: \<^verbatim>\<open>SimpleType.CQLPretty\<close> is called by \<^verbatim>\<open>BagType.CQLPretty\<close> but
  its code is not among the sources. A simple type holds one \<open>?\<close> and consumes one value
  (\<open>LenValue() = 1\<close>); its "pretty-printer producing a CQL literal for one \<open>?\<close>
  placeholder" is the parameter \<open>lit\<close> (simple type and value to CQL literal, \<open>None\<close> on a
  mismatch); the type of simple types is the parameter \<open>'t\<close>.
\<close>

definition SimpleType_CQLPretty ::
  "('t \<Rightarrow> 'a gvalue \<Rightarrow> string option) \<Rightarrow> 't \<Rightarrow> string \<Rightarrow> 'a gvalue list
     \<Rightarrow> panic + string \<times> int" where
  "SimpleType_CQLPretty lit st query value = replace_holder (lit st) query value"

record 't BagType =
  ComplexType :: string
  ValueType :: 't
  Frozen :: bool

text \<open>
  Modelled from the spec: the constants \<^verbatim>\<open>TYPE_SET\<close> and \<^verbatim>\<open>TYPE_LIST\<close> are not declared in
  the sources; a bag is \<open>list<T>\<close> or \<open>set<T>\<close> and \<^verbatim>\<open>CQLDef\<close> prints
  \<^verbatim>\<open>ComplexType + "<" ...\<close>, so the constants are the CQL keywords.
\<close>

definition TYPE_SET :: string where
  "TYPE_SET = ''set''"

definition TYPE_LIST :: string where
  "TYPE_LIST = ''list''"

definition BagType_CQLHolder :: "'t BagType \<Rightarrow> string" where
  "BagType_CQLHolder ct = ''?''"

definition BagType_LenValue :: "'t BagType \<Rightarrow> int" where
  "BagType_LenValue ct = 1"

text \<open>
  The loop of \<^verbatim>\<open>BagType.CQLPretty\<close> (bag.go, lines 78 to 80): for each element of the
  slice, in order, the element type prints into \<open>vv\<close>; the count it returns is dropped,
  and a panic of the element type ends the call.
\<close>

fun bag_fill ::
  "('t \<Rightarrow> 'a gvalue \<Rightarrow> string option) \<Rightarrow> 't \<Rightarrow> string \<Rightarrow> 'a gvalue list \<Rightarrow> panic + string" where
  "bag_fill lit vt vv [] = Inr vv"
| "bag_fill lit vt vv (x # xs) =
     (case SimpleType_CQLPretty lit vt vv [x] of
        Inl e \<Rightarrow> Inl e
      | Inr (vv', _) \<Rightarrow> bag_fill lit vt vv' xs)"

definition BagType_CQLPretty ::
  "('t \<Rightarrow> 'a gvalue \<Rightarrow> string option) \<Rightarrow> 't BagType \<Rightarrow> string \<Rightarrow> 'a gvalue list
     \<Rightarrow> panic + string \<times> int" where
  "BagType_CQLPretty lit ct query value =
     (case value of
        [] \<Rightarrow> Inr (query, 0)
      | v # _ \<Rightarrow>
          (case v of
             NilInterface \<Rightarrow> Inl NilDereference
           | Scalar _ \<Rightarrow> Inl SetCqlPrettyUnknownType
           | Slice s \<Rightarrow>
               (let (op, cl) = (if ComplexType ct = TYPE_SET then (''{'', ''}'') else (''['', '']''));
                    vv = op;
                    vv = vv @ strings_Repeat ''?,'' (length s);
                    vv = strings_TrimRight vv '','';
                    vv = vv @ cl
                in case bag_fill lit (ValueType ct) vv s of
                     Inl e \<Rightarrow> Inl e
                   | Inr vv \<Rightarrow> Inr (strings_Replace1 query ''?'' vv, 1))))"


subsection \<open>Random generation\<close>

text \<open>
  A \<^verbatim>\<open>*rand.Rand\<close> is a deterministic source: it is modelled by the infinite sequence of
  the raw numbers it will still produce; drawing takes the first and leaves the rest.
\<close>

type_synonym rand = "nat \<Rightarrow> nat"

definition rand_next :: "rand \<Rightarrow> rand" where
  "rand_next r = (\<lambda>n. r (Suc n))"

record PartitionRangeConfig =
  MaxBlobLength :: int
  MinBlobLength :: int
  MaxStringLength :: int
  MinStringLength :: int
  UseLWT :: bool

text \<open>
  Modelled from the spec: the constant \<^verbatim>\<open>maxBagSize\<close> is not declared in the sources; the
  specification says "Bag/map/udt sizes: uniform in [1, maxBagSize] (constant, e.g. 10)".
\<close>

definition maxBagSize :: int where
  "maxBagSize = 10"

text \<open>
  Modelled from the spec: \<^verbatim>\<open>utils.RandInt2\<close> is not among the sources. The specification
  gives the sizes drawn by \<^verbatim>\<open>RandInt2(r, 1, maxBagSize+1)\<close> as lying in \<open>[1, maxBagSize]\<close>:
  the result of \<^verbatim>\<open>RandInt2(r, lo, hi)\<close> lies in \<open>[lo, hi)\<close>. With an empty interval the lower bound is returned.
\<close>

definition RandInt2 :: "rand \<Rightarrow> int \<Rightarrow> int \<Rightarrow> int \<times> rand" where
  "RandInt2 r lo hi =
     (if hi \<le> lo then (lo, r)
      else (lo + int (r 0) mod (hi - lo), rand_next r))"

text \<open>
  Modelled from the spec: \<^verbatim>\<open>SimpleType.GenValue\<close> is not among the sources. The
  specification gives \<^verbatim>\<open>GenValue(rng, rangeCfg)\<close> as "a length-\<open>LenValue()\<close> vector" with
  \<open>LenValue() = 1\<close> for a simple type. The cell it generates is the parameter \<open>gen\<close>,
  which also returns the source after its draws.
\<close>

definition SimpleType_GenValue ::
  "('t \<Rightarrow> rand \<Rightarrow> PartitionRangeConfig \<Rightarrow> 'a gvalue \<times> rand) \<Rightarrow> 't \<Rightarrow> rand \<Rightarrow> PartitionRangeConfig
     \<Rightarrow> 'a gvalue list \<times> rand" where
  "SimpleType_GenValue gen st r p = (let (v, r') = gen st r p in ([v], r'))"

text \<open>
  The loop of \<^verbatim>\<open>BagType.GenValue\<close> (bag.go, lines 87 to 89) with \<open>count\<close> iterations left:
  \<^verbatim>\<open>out[i] = ct.ValueType.GenValue(r, p)[0]\<close>; indexing an empty result panics.
\<close>

fun bag_gen_loop ::
  "('t \<Rightarrow> rand \<Rightarrow> PartitionRangeConfig \<Rightarrow> 'a gvalue \<times> rand) \<Rightarrow> 't \<Rightarrow> nat \<Rightarrow> rand \<Rightarrow> PartitionRangeConfig
     \<Rightarrow> panic + 'a gvalue list \<times> rand" where
  "bag_gen_loop gen vt 0 r p = Inr ([], r)"
| "bag_gen_loop gen vt (Suc count) r p =
     (case SimpleType_GenValue gen vt r p of
        ([], r') \<Rightarrow> Inl IndexOutOfRange
      | (v # _, r') \<Rightarrow>
          (case bag_gen_loop gen vt count r' p of
             Inl e \<Rightarrow> Inl e
           | Inr (out, r'') \<Rightarrow> Inr (v # out, r'')))"

definition BagType_GenValue ::
  "('t \<Rightarrow> rand \<Rightarrow> PartitionRangeConfig \<Rightarrow> 'a gvalue \<times> rand) \<Rightarrow> 't BagType \<Rightarrow> rand \<Rightarrow> PartitionRangeConfig
     \<Rightarrow> panic + 'a gvalue list \<times> rand" where
  "BagType_GenValue gen ct r p =
     (let (count, r1) = RandInt2 r 1 (maxBagSize + 1) in
      if count < 0 then Inl MakesliceLenOutOfRange
      else (case bag_gen_loop gen (ValueType ct) (nat count) r1 p of
              Inl e \<Rightarrow> Inl e
            | Inr (out, r2) \<Rightarrow> Inr ([Slice out], r2)))"


section \<open>typedef: statements (the typedef part of cmd/gemini/root.go)\<close>

text \<open>
  \<^verbatim>\<open>Types\<close> is a sequence of values of the interface \<^verbatim>\<open>Type\<close>. Of its implementations the
  sources hold \<^verbatim>\<open>BagType\<close>.

  Modelled from the spec: the other implementations are not among the sources. The
  specification lists the variants ("\<open>Type = Simple(...) | Bag(...) | Map(...) | Tuple(...) |
  UDT(...) | Counter\<close>") and says of each what it holds: a map type wraps a key and a value
  simple type and "consumes one \<open>?\<close>"; a tuple type is an "ordered heterogeneous sequence of
  SimpleTypes; each component consumes its own \<open>?\<close>", and its "\<open>LenValue()\<close> equals the
  component count"; a user-defined type is a "named collection of fields (name to
  SimpleType); frozen or not; consumes one \<open>?\<close> aggregate holder"; a counter is a 64-bit
  signed scalar, and scalar types hold one \<open>?\<close>.
\<close>

datatype 't Type =
    Simple 't
  | Bag "'t BagType"
  | Map 't 't
  | Tuple "'t list"
  | UDT string "(string \<times> 't) list" bool
  | Counter

text \<open>
  Modelled from the spec: \<^verbatim>\<open>TupleType.CQLPretty\<close>. Each component prints the next value
  into its own \<open>?\<close> (the leftmost one of the query); the call reports the component count.
  Without a value nothing is consumed, as in \<^verbatim>\<open>BagType.CQLPretty\<close>.
\<close>

fun tuple_fill ::
  "('t \<Rightarrow> 'a gvalue \<Rightarrow> string option) \<Rightarrow> 't list \<Rightarrow> string \<Rightarrow> 'a gvalue list \<Rightarrow> panic + string" where
  "tuple_fill lit [] query value = Inr query"
| "tuple_fill lit (c # cs) query value =
     (case SimpleType_CQLPretty lit c query value of
        Inl e \<Rightarrow> Inl e
      | Inr (query', _) \<Rightarrow> tuple_fill lit cs query' (drop 1 value))"

definition TupleType_CQLPretty ::
  "('t \<Rightarrow> 'a gvalue \<Rightarrow> string option) \<Rightarrow> 't list \<Rightarrow> string \<Rightarrow> 'a gvalue list
     \<Rightarrow> panic + string \<times> int" where
  "TupleType_CQLPretty lit cs query value =
     (if value = [] then Inr (query, 0)
      else (case tuple_fill lit cs query value of
              Inl e \<Rightarrow> Inl e
            | Inr query' \<Rightarrow> Inr (query', int (length cs))))"

text \<open>
  The dispatch of \<^verbatim>\<open>typ.CQLPretty(query, values)\<close> on the implementation. The parameter
  \<open>lit\<close> gives the literal that a type which holds one \<open>?\<close> prints for a value (\<open>None\<close> on
  a mismatch); the elements of a bag and the components of a tuple are printed as values of
  their simple types. Modelled from the spec: a map type, a user-defined type and a counter
  replace their one \<open>?\<close> by their literal.
\<close>

fun Type_CQLPretty ::
  "('t Type \<Rightarrow> 'a gvalue \<Rightarrow> string option) \<Rightarrow> 't Type \<Rightarrow> string \<Rightarrow> 'a gvalue list
     \<Rightarrow> panic + string \<times> int" where
  "Type_CQLPretty lit (Simple st) query value =
     SimpleType_CQLPretty (\<lambda>st. lit (Simple st)) st query value"
| "Type_CQLPretty lit (Bag ct) query value =
     BagType_CQLPretty (\<lambda>st. lit (Simple st)) ct query value"
| "Type_CQLPretty lit (Tuple cs) query value =
     TupleType_CQLPretty (\<lambda>st. lit (Simple st)) cs query value"
| "Type_CQLPretty lit typ query value = replace_holder (lit typ) query value"

text \<open>
  Modelled from the spec: the \<^verbatim>\<open>LenValue\<close> of the types other than \<^verbatim>\<open>BagType\<close>, which are
  not among the sources: the component count for a tuple, one for every other type.
\<close>

fun Type_LenValue :: "'t Type \<Rightarrow> int" where
  "Type_LenValue (Bag ct) = BagType_LenValue ct"
| "Type_LenValue (Tuple cs) = int (length cs)"
| "Type_LenValue typ = 1"

subsection \<open>Slices in memory\<close>

text \<open>
  \<^verbatim>\<open>Values\<close> is a Go slice (\<^verbatim>\<open>[]interface{}\<close>): a header that points into a backing array
  which other headers may share. The memory maps the address of each allocated backing array
  to its contents; \<open>lim\<close> is the next address \<^verbatim>\<open>make\<close> hands out. A header is the array it
  points into, the offset of its first element there, its length and its capacity.
  The elements are interface values; a slice held inside an element is kept by value.
\<close>

type_synonym addr = nat

record 'v memory =
  arrays :: "addr \<Rightarrow> 'v list option"
  lim :: addr

record Values =
  base :: addr
  off :: nat
  slen :: nat
  scap :: nat

definition slice_load :: "'v memory \<Rightarrow> Values \<Rightarrow> 'v list" where
  "slice_load m v =
     (case arrays m (base v) of
        None \<Rightarrow> []
      | Some arr \<Rightarrow> take (slen v) (drop (off v) arr))"

text \<open>\<^verbatim>\<open>v[i] = x\<close> for \<open>i\<close> below the length of \<open>v\<close>.\<close>

definition slice_store :: "'v memory \<Rightarrow> Values \<Rightarrow> nat \<Rightarrow> 'v \<Rightarrow> 'v memory" where
  "slice_store m v i x =
     (case arrays m (base v) of
        None \<Rightarrow> m
      | Some arr \<Rightarrow> m\<lparr>arrays := (arrays m)(base v \<mapsto> arr[off v + i := x])\<rparr>)"

text \<open>\<^verbatim>\<open>make(Values, n)\<close>: a fresh backing array of \<open>n\<close> nil interfaces.\<close>

definition make_Values :: "'a gvalue memory \<Rightarrow> nat \<Rightarrow> Values \<times> 'a gvalue memory" where
  "make_Values m n =
     (\<lparr>base = lim m, off = 0, slen = n, scap = n\<rparr>,
      m\<lparr>arrays := (arrays m)(lim m \<mapsto> replicate n NilInterface), lim := Suc (lim m)\<rparr>)"

text \<open>
  The builtin \<^verbatim>\<open>copy(dst, src)\<close>: the first \<open>min(len(dst), len(src))\<close> elements of \<open>src\<close>
  are written over the first elements of \<open>dst\<close>; the number copied is returned.
\<close>

definition builtin_copy :: "'v memory \<Rightarrow> Values \<Rightarrow> Values \<Rightarrow> nat \<times> 'v memory" where
  "builtin_copy m dst src =
     (let n = min (slen dst) (slen src) in
      case arrays m (base dst) of
        None \<Rightarrow> (n, m)
      | Some arr \<Rightarrow>
          (n, m\<lparr>arrays := (arrays m)(base dst \<mapsto>
                 take (off dst) arr @ take n (slice_load m src) @ drop (off dst + n) arr)\<rparr>))"

definition Values_Copy :: "'a gvalue memory \<Rightarrow> Values \<Rightarrow> Values \<times> 'a gvalue memory" where
  "Values_Copy m v =
     (let (values, m1) = make_Values m (slen v);
          (n, m2) = builtin_copy m1 values v
      in (values, m2))"

subsection \<open>Stmt and PrettyCQL\<close>

type_synonym StatementType = "8 word"

record ValueWithToken =
  Value :: Values
  Token :: "64 word"

text \<open>
  \<^verbatim>\<open>Query\<close> is a \<^verbatim>\<open>qb.Builder\<close> of an external library; \<^verbatim>\<open>PrettyCQL\<close> uses only the text that
  \<^verbatim>\<open>Query.ToCql()\<close> renders, which is what the field holds here. The embedded
  \<^verbatim>\<open>*StmtCache\<close> of a statement is taken to be set.
\<close>

record 't StmtCache =
  Query :: string
  Types :: "'t Type list"
  QueryType :: StatementType
  LenValue :: int

record 't Stmt =
  StmtCache :: "'t StmtCache"
  ValuesWithToken :: "ValueWithToken option"
  Values :: Values

text \<open>
  The loop of \<^verbatim>\<open>PrettyCQL\<close> (root.go, lines 404 to 411) on the contents of the local slice
  \<open>values\<close>. \<^verbatim>\<open>values[replaced:]\<close> panics for a negative \<open>replaced\<close>; the guard
  \<^verbatim>\<open>len(values) >= replaced\<close> excludes the other bound.
\<close>

fun pretty_loop ::
  "('t Type \<Rightarrow> 'a gvalue \<Rightarrow> string option) \<Rightarrow> 't Type list \<Rightarrow> string \<Rightarrow> 'a gvalue list
     \<Rightarrow> panic + string" where
  "pretty_loop lit [] query values = Inr query"
| "pretty_loop lit (typ # types) query values =
     (case Type_CQLPretty lit typ query values of
        Inl e \<Rightarrow> Inl e
      | Inr (query', replaced) \<Rightarrow>
          if int (length values) \<ge> replaced
          then (if replaced < 0 then Inl SliceBoundsOutOfRange
                else pretty_loop lit types query' (drop (nat replaced) values))
          else Inr query')"

definition Stmt_PrettyCQL ::
  "('t Type \<Rightarrow> 'a gvalue \<Rightarrow> string option) \<Rightarrow> 'a gvalue memory \<Rightarrow> 't Stmt
     \<Rightarrow> (panic + string) \<times> 'a gvalue memory" where
  "Stmt_PrettyCQL lit m s =
     (let query = Query (StmtCache s);
          (values, m') = Values_Copy m (Values s)
      in if slen values = 0 then (Inr query, m')
         else (pretty_loop lit (Types (StmtCache s)) query (slice_load m' values), m'))"

text \<open>
  \<^verbatim>\<open>StatementType\<close> is a \<^verbatim>\<open>uint8\<close>. The declarations of its constants are not among the
  sources: the two that \<^verbatim>\<open>PossibleAsyncOperation\<close> names are parameters.
\<close>

definition PossibleAsyncOperation :: "StatementType \<Rightarrow> StatementType \<Rightarrow> StatementType \<Rightarrow> bool" where
  "PossibleAsyncOperation SelectByIndexStatementType SelectFromMaterializedViewStatementType st =
     (if st = SelectByIndexStatementType \<or> st = SelectFromMaterializedViewStatementType
      then True else False)"


section \<open>store: cqlStore (the store part of cmd/gemini/root.go)\<close>

text \<open>
  A Go \<^verbatim>\<open>error\<close> value: the sentinels the code compares with, any other error by its
  text, and an error that wraps another (what \<^verbatim>\<open>errors.Wrapf\<close> and \<^verbatim>\<open>fmt.Errorf("%w")\<close>
  build and \<^verbatim>\<open>Unwrap\<close> opens). A nil error is \<^term>\<open>None\<close> of \<open>error option\<close>.
\<close>

datatype error =
    Canceled
  | DeadlineExceeded
  | ErrReadNoDataReturned
  | Error string
  | Wrapped string error

text \<open>\<^verbatim>\<open>errors.Is(err, target)\<close> for a non-nil \<open>err\<close>: some error of the chain equals the target.\<close>

fun errors_Is :: "error \<Rightarrow> error \<Rightarrow> bool" where
  "errors_Is (Wrapped msg cause) target = (Wrapped msg cause = target \<or> errors_Is cause target)"
| "errors_Is err target = (err = target)"

text \<open>\<^verbatim>\<open>errors.Wrapf(err, format, args...)\<close> of pkg/errors for a non-nil \<open>err\<close>.\<close>

definition errors_Wrapf :: "error \<Rightarrow> string \<Rightarrow> error" where
  "errors_Wrapf err msg = Wrapped msg err"

fun ignore :: "error option \<Rightarrow> bool" where
  "ignore None = True"
| "ignore (Some err) =
     (if errors_Is err Canceled \<or> errors_Is err DeadlineExceeded then True else False)"

record cqlStore =
  system :: string
  maxRetriesMutate :: int
  maxRetriesMutateSleep :: int
  useServerSideTimestamps :: bool

text \<open>
  \<^verbatim>\<open>doMutate\<close> builds the query and runs \<^verbatim>\<open>query.Exec()\<close> on the session of an external
  driver; \<open>exec_err\<close> is the error that call returns. \<open>queryBody\<close> is the text of
  \<^verbatim>\<open>builder.ToCql()\<close>. Writing to the logger changes neither the control flow nor the result
  and is left out.
\<close>

definition cqlStore_doMutate :: "cqlStore \<Rightarrow> string \<Rightarrow> error option \<Rightarrow> error option" where
  "cqlStore_doMutate cs queryBody exec_err =
     (case exec_err of
        Some err \<Rightarrow>
          (if \<not> ignore (Some err)
           then Some (errors_Wrapf err
                  (''[cluster = '' @ system cs @ '', query = '' @ [CHR 0x27] @ queryBody @ [CHR 0x27] @ '']''))
           else None)
      | None \<Rightarrow> None)"





section \<open>The workers and their coordinator (cmd/gemini/root.go)\<close>

record Status =
  WriteOps :: int
  WriteErrors :: int
  ReadOps :: int
  ReadErrors :: int

text \<open>
  The session is an external collaborator. The worker uses the errors its \<^verbatim>\<open>Mutate\<close> and \<^verbatim>\<open>Check\<close>
  return: \<open>Mutate s i\<close> and \<open>Check s i\<close> are those of the calls made in iteration \<open>i\<close>.
\<close>

record Session =
  Mutate :: "nat \<Rightarrow> error option"
  Check :: "nat \<Rightarrow> error option"

text \<open>
  The body of the loop of \<^verbatim>\<open>MixedJob\<close> in iteration \<open>i\<close> (printing left out), and the
  loop from iteration \<open>i\<close> on. The loop variable cannot overflow: it stays below
  \<^verbatim>\<open>maxTests\<close>.
\<close>

definition MixedJob_body :: "Session \<Rightarrow> int \<Rightarrow> Status \<Rightarrow> Status" where
  "MixedJob_body s i testStatus =
     (let testStatus = testStatus\<lparr>WriteOps := wrap64 (WriteOps testStatus + 1)\<rparr>;
          testStatus = (if Mutate s (nat i) \<noteq> None
                        then testStatus\<lparr>WriteErrors := wrap64 (WriteErrors testStatus + 1)\<rparr>
                        else testStatus);
          err = Check s (nat i)
      in if err = None
         then testStatus\<lparr>ReadOps := wrap64 (ReadOps testStatus + 1)\<rparr>
         else if err \<noteq> Some ErrReadNoDataReturned
              then testStatus\<lparr>ReadErrors := wrap64 (ReadErrors testStatus + 1)\<rparr>
              else testStatus)"

function MixedJob_loop :: "Session \<Rightarrow> int \<Rightarrow> int \<Rightarrow> Status \<Rightarrow> Status" where
  "MixedJob_loop s maxTests i testStatus =
     (if i < maxTests
      then MixedJob_loop s maxTests (i + 1) (MixedJob_body s i testStatus)
      else testStatus)"
  by pat_completeness auto
termination
  by (relation "measure (\<lambda>(s, maxTests, i, testStatus). nat (maxTests - i))") auto

declare MixedJob_loop.simps [simp del]

text \<open>The status that \<^verbatim>\<open>MixedJob\<close> sends on its channel.\<close>

definition MixedJob :: "Session \<Rightarrow> int \<Rightarrow> Status" where
  "MixedJob s maxTests =
     MixedJob_loop s maxTests 0 \<lparr>WriteOps = 0, WriteErrors = 0, ReadOps = 0, ReadErrors = 0\<rparr>"

record PartitionRange =
  Min_pk :: int
  Max_pk :: int

text \<open>
  The first loop of \<^verbatim>\<open>runJob\<close> from \<open>i\<close> on: the partition ranges it hands to the workers it
  starts, in the order of the workers. The loop variable cannot overflow: it stays below
  \<^verbatim>\<open>threads\<close>; the bounds of a range can.
\<close>

function runJob_loop :: "int \<Rightarrow> int \<Rightarrow> int \<Rightarrow> int \<Rightarrow> PartitionRange list" where
  "runJob_loop threads minRange maxRange i =
     (if i < threads
      then \<lparr>Min_pk = wrap64 (minRange + wrap64 (i * maxRange)),
            Max_pk = wrap64 (maxRange + wrap64 (i * maxRange))\<rparr>
           # runJob_loop threads minRange maxRange (i + 1)
      else [])"
  by pat_completeness auto
termination
  by (relation "measure (\<lambda>(threads, minRange, maxRange, i). nat (threads - i))") auto

declare runJob_loop.simps [simp del]

definition runJob :: "int \<Rightarrow> int \<Rightarrow> PartitionRange list" where
  "runJob threads pkNumberPerThread =
     (let minRange = 0; maxRange = pkNumberPerThread
      in runJob_loop threads minRange maxRange 0)"


section \<open>Notions the properties are stated with\<close>

text \<open>
  The query with its leftmost \<open>?\<close> replaced by a text, stated by position: what stands
  before the first \<open>?\<close>, the text, what stands after it.
\<close>

definition replace_leftmost :: "string \<Rightarrow> string \<Rightarrow> string" where
  "replace_leftmost query text =
     (if CHR ''?'' \<in> set query
      then takeWhile (\<lambda>c. c \<noteq> CHR ''?'') query @ text @ tl (dropWhile (\<lambda>c. c \<noteq> CHR ''?'') query)
      else query)"

text \<open>Literals separated by commas: \<open>v,v,...\<close>.\<close>

fun join_comma :: "string list \<Rightarrow> string" where
  "join_comma [] = []"
| "join_comma [x] = x"
| "join_comma (x # y # ys) = x @ '','' @ join_comma (y # ys)"

text \<open>The placeholders of a bag of \<open>n\<close> elements: \<open>?,?,...,?\<close>.\<close>

fun holders :: "nat \<Rightarrow> string" where
  "holders 0 = []"
| "holders (Suc 0) = ''?''"
| "holders (Suc (Suc n)) = ''?,'' @ holders (Suc n)"

text \<open>
  Literal printers to run the printing functions with: a text is printed between single
  quotes, as in the specification's \<open>{1:'a',2:'b'}\<close>, and a value that is no text (a nil, a
  slice) does not match; the simple types are named by their CQL names. For the types of a
  statement: simple types print texts, the other types that hold one \<open>?\<close> match no value.
\<close>

definition quoted :: "string \<Rightarrow> string" where
  "quoted s = [CHR 0x27] @ s @ [CHR 0x27]"

fun text_literal :: "string \<Rightarrow> string gvalue \<Rightarrow> string option" where
  "text_literal st (Scalar s) = Some (quoted s)"
| "text_literal st v = None"

fun type_literal :: "string Type \<Rightarrow> string gvalue \<Rightarrow> string option" where
  "type_literal (Simple st) v = text_literal st v"
| "type_literal typ v = None"


text \<open>
  A slice header is valid in a memory when its length is within its capacity and, unless
  the capacity is zero (as for a nil slice), its backing array is allocated and holds the
  whole capacity.
\<close>

definition valid_Values :: "'v memory \<Rightarrow> Values \<Rightarrow> bool" where
  "valid_Values m v =
     (slen v \<le> scap v \<and>
      (scap v = 0 \<or>
       (base v < lim m \<and>
        (case arrays m (base v) of
           None \<Rightarrow> False
         | Some arr \<Rightarrow> off v + scap v \<le> length arr))))"

text \<open>
  A value has a clean literal when it matches the type and its literal holds no \<open>?\<close>.
  A type prints the values bound to it cleanly when every literal it prints for them is
  clean: a bag type is bound to one slice and prints its elements, a tuple type is bound
  to one value for each component, every other type is bound to one value. The types of a
  statement print its values cleanly when each type, in order, prints cleanly the values
  that are bound to it, as many as its \<^verbatim>\<open>LenValue\<close>.
\<close>

definition clean_literal :: "('a gvalue \<Rightarrow> string option) \<Rightarrow> 'a gvalue \<Rightarrow> bool" where
  "clean_literal literal v = (case literal v of None \<Rightarrow> False | Some l \<Rightarrow> CHR ''?'' \<notin> set l)"

fun prints_clean :: "('t Type \<Rightarrow> 'a gvalue \<Rightarrow> string option) \<Rightarrow> 't Type \<Rightarrow> 'a gvalue list \<Rightarrow> bool" where
  "prints_clean lit (Bag ct) vs =
     (case vs of
        [Slice xs] \<Rightarrow> list_all (clean_literal (lit (Simple (ValueType ct)))) xs
      | _ \<Rightarrow> False)"
| "prints_clean lit (Tuple cs) vs = list_all2 (\<lambda>c v. clean_literal (lit (Simple c)) v) cs vs"
| "prints_clean lit typ vs = (case vs of [v] \<Rightarrow> clean_literal (lit typ) v | _ \<Rightarrow> False)"

fun prints_all_clean ::
  "('t Type \<Rightarrow> 'a gvalue \<Rightarrow> string option) \<Rightarrow> 't Type list \<Rightarrow> 'a gvalue list \<Rightarrow> bool" where
  "prints_all_clean lit [] vs = True"
| "prints_all_clean lit (typ # types) vs =
     (nat (Type_LenValue typ) \<le> length vs
      \<and> prints_clean lit typ (take (nat (Type_LenValue typ)) vs)
      \<and> prints_all_clean lit types (drop (nat (Type_LenValue typ)) vs))"

text \<open>The partition keys of a range: from \<open>Min\<close> up to, and without, \<open>Max\<close>.\<close>

definition PartitionRange_keys :: "PartitionRange \<Rightarrow> int set" where
  "PartitionRange_keys p = {Min_pk p ..< Max_pk p}"


text \<open>Every counter of a status lies between 0 and \<open>n\<close>.\<close>

definition counters_upto :: "int \<Rightarrow> Status \<Rightarrow> bool" where
  "counters_upto n st \<longleftrightarrow>
     0 \<le> WriteOps st \<and> WriteOps st \<le> n \<and> 0 \<le> WriteErrors st \<and> WriteErrors st \<le> n \<and>
     0 \<le> ReadOps st \<and> ReadOps st \<le> n \<and> 0 \<le> ReadErrors st \<and> ReadErrors st \<le> n"

text \<open>The range \<open>[i*K, (i+1)*K)\<close> of worker \<open>i\<close> for \<open>K\<close> keys per worker.\<close>

definition range_at :: "int \<Rightarrow> int \<Rightarrow> PartitionRange" where
  "range_at K i = \<lparr>Min_pk = i * K, Max_pk = (i + 1) * K\<rparr>"

text \<open>
  Concrete inputs to run the functions on: a memory that holds one backing array at address
  0, the slice over the whole of it, and a statement whose values are that slice; a
  generator of cells that takes each cell from the random source; a range configuration.
\<close>

definition memory_of :: "'v list \<Rightarrow> 'v memory" where
  "memory_of vs = \<lparr>arrays = (\<lambda>a. None)(0 \<mapsto> vs), lim = 1\<rparr>"

definition values_of :: "'v list \<Rightarrow> Values" where
  "values_of vs = \<lparr>base = 0, off = 0, slen = length vs, scap = length vs\<rparr>"

definition stmt_of :: "string \<Rightarrow> 't Type list \<Rightarrow> 'v list \<Rightarrow> 't Stmt" where
  "stmt_of query types vs =
     \<lparr>StmtCache = \<lparr>Query = query, Types = types, QueryType = 0, LenValue = int (length vs)\<rparr>,
      ValuesWithToken = None,
      Values = values_of vs\<rparr>"

definition list_of_text :: "string Type" where
  "list_of_text = Bag \<lparr>ComplexType = TYPE_LIST, ValueType = ''text'', Frozen = False\<rparr>"

definition pair_of_text :: "string Type" where
  "pair_of_text = Tuple [''text'', ''text'']"

definition gen_draw :: "string \<Rightarrow> rand \<Rightarrow> PartitionRangeConfig \<Rightarrow> nat gvalue \<times> rand" where
  "gen_draw st r p = (Scalar (r 0), rand_next r)"

definition range_config :: PartitionRangeConfig where
  "range_config =
     \<lparr>MaxBlobLength = 10, MinBlobLength = 0, MaxStringLength = 10, MinStringLength = 0, UseLWT = False\<rparr>"





text \<open>
  A session whose mutations return an error from the second on, and whose checks return nil,
  then the empty read, then another error.
\<close>

definition session_of :: "error \<Rightarrow> Session" where
  "session_of e =
     \<lparr>Mutate = (\<lambda>i. if i = 0 then None else Some e),
      Check = (\<lambda>i. if i = 0 then None else if i = 1 then Some ErrReadNoDataReturned
                    else Some (Error ''rows differ''))\<rparr>"

section \<open>Facts about the library functions\<close>

lemma Replace1_qmark: "strings_Replace1 s ''?'' new = replace_leftmost s new"
  by (induction s) (auto simp: replace_leftmost_def)

lemma Replace1_at:
  "CHR ''?'' \<notin> set pre \<Longrightarrow> strings_Replace1 (pre @ CHR ''?'' # post) ''?'' new = pre @ new @ post"
  by (induction pre) auto

lemma Repeat_holders: "strings_Repeat ''?,'' (Suc n) = holders (Suc n) @ '',''"
  by (induction n) (auto simp: strings_Repeat_def)

lemma holders_last: "holders (Suc n) \<noteq> [] \<and> last (holders (Suc n)) = CHR ''?''"
  by (induction n) auto

lemma TrimRight_snoc: "c \<notin> set cutset \<Longrightarrow> strings_TrimRight (s @ [c]) cutset = s @ [c]"
  by (simp add: strings_TrimRight_def)

lemma TrimRight_comma: "strings_TrimRight (s @ '','') '','' = strings_TrimRight s '',''"
  by (simp add: strings_TrimRight_def)

lemma TrimRight_holders:
  assumes "op = ''['' \<or> op = ''{''"
  shows "strings_TrimRight (op @ strings_Repeat ''?,'' n) '','' = op @ holders n"
proof (cases n)
  case 0
  with assms show ?thesis by (auto simp: strings_TrimRight_def strings_Repeat_def)
next
  case (Suc m)
  obtain h where h: "holders (Suc m) = h @ ''?''"
    using holders_last[of m] by (metis append_butlast_last_id)
  have "strings_TrimRight (op @ strings_Repeat ''?,'' (Suc m)) '','' =
        strings_TrimRight ((op @ holders (Suc m)) @ '','') '',''"
    by (simp only: Repeat_holders append_assoc)
  also have "\<dots> = strings_TrimRight (op @ holders (Suc m)) '',''"
    by (rule TrimRight_comma)
  also have "\<dots> = strings_TrimRight ((op @ h) @ ''?'') '',''"
    by (simp only: h append_assoc)
  also have "\<dots> = (op @ h) @ ''?''"
    by (rule TrimRight_snoc) simp
  finally show ?thesis using Suc h by simp
qed

section \<open>BagType.CQLPretty\<close>

lemmas run_CQLPretty =
  BagType_CQLPretty_def TYPE_SET_def TYPE_LIST_def strings_Repeat_def strings_TrimRight_def
  SimpleType_CQLPretty_def replace_holder_def quoted_def

text \<open>
  Filling the placeholders of a bag from left to right yields the literals in order, as long
  as every element has a literal and no literal but the last brings a \<open>?\<close> of its own: the
  next element would be printed into it. An element without a literal ends the call with
  the panic of the element type.
\<close>

lemma bag_fill_holders:
  "CHR ''?'' \<notin> set pre \<Longrightarrow> map (lit vt) xs = map Some ls \<Longrightarrow>
   (\<forall>l \<in> set (butlast ls). CHR ''?'' \<notin> set l) \<Longrightarrow>
   bag_fill lit vt (pre @ holders (length xs) @ post) xs = Inr (pre @ join_comma ls @ post)"
proof (induction xs arbitrary: pre ls)
  case Nil
  then show ?case by simp
next
  case (Cons x xs)
  from Cons.prems(2) obtain l ls' where ls: "ls = l # ls'"
    and l: "lit vt x = Some l" and rest: "map (lit vt) xs = map Some ls'"
    by (cases ls) auto
  show ?case
  proof (cases xs)
    case Nil
    with Cons.prems(1) l rest ls show ?thesis
      by (simp add: SimpleType_CQLPretty_def replace_holder_def Replace1_at)
  next
    case more: (Cons y ys)
    with rest obtain l2 ls2 where ls': "ls' = l2 # ls2"
      by (cases ls') auto
    have free: "CHR ''?'' \<notin> set l"
      using Cons.prems(3) ls ls' by simp
    have clean: "\<forall>l \<in> set (butlast ls'). CHR ''?'' \<notin> set l"
      using Cons.prems(3) ls ls' by simp
    have pre': "CHR ''?'' \<notin> set (pre @ l @ '','')"
      using Cons.prems(1) free by simp
    have step: "SimpleType_CQLPretty lit vt (pre @ holders (length (x # xs)) @ post) [x]
        = Inr ((pre @ l @ '','') @ holders (length xs) @ post, 1)"
      using Cons.prems(1) more l
      by (simp add: SimpleType_CQLPretty_def replace_holder_def Replace1_at)
    have "bag_fill lit vt (pre @ holders (length (x # xs)) @ post) (x # xs) =
          bag_fill lit vt ((pre @ l @ '','') @ holders (length xs) @ post) xs"
      by (simp only: bag_fill.simps step) simp
    also have "\<dots> = Inr ((pre @ l @ '','') @ join_comma ls' @ post)"
      by (rule Cons.IH[OF pre' rest clean])
    also have "\<dots> = Inr (pre @ join_comma ls @ post)"
      using ls ls' by simp
    finally show ?thesis .
  qed
qed



lemma BagType_CQLPretty_fill:
  "BagType_CQLPretty lit ct query (Slice xs # rest) =
     (case bag_fill lit (ValueType ct)
        (strings_TrimRight ((if ComplexType ct = TYPE_SET then ''{'' else ''['') @
            strings_Repeat ''?,'' (length xs)) '','' @
          (if ComplexType ct = TYPE_SET then ''}'' else '']'')) xs of
        Inl e \<Rightarrow> Inl e
      | Inr vv \<Rightarrow> Inr (strings_Replace1 query ''?'' vv, 1))"
  by (simp add: BagType_CQLPretty_def)

lemma BagType_CQLPretty_Slice:
  assumes "map (lit (ValueType ct)) xs = map Some ls"
    and "\<forall>l \<in> set (butlast ls). CHR ''?'' \<notin> set l"
  defines "op \<equiv> (if ComplexType ct = TYPE_SET then ''{'' else ''['')"
    and "cl \<equiv> (if ComplexType ct = TYPE_SET then ''}'' else '']'')"
  shows "BagType_CQLPretty lit ct query (Slice xs # rest) =
     Inr (replace_leftmost query (op @ join_comma ls @ cl), 1)"
proof -
  have fill: "bag_fill lit (ValueType ct) (op @ holders (length xs) @ cl) xs
     = Inr (op @ join_comma ls @ cl)"
    by (rule bag_fill_holders) (use assms(1,2) in \<open>auto simp: op_def\<close>)
  have trim: "strings_TrimRight (op @ strings_Repeat ''?,'' (length xs)) '','' = op @ holders (length xs)"
    by (rule TrimRight_holders) (auto simp: op_def)
  show ?thesis
    unfolding BagType_CQLPretty_fill op_def[symmetric] cl_def[symmetric]
    by (simp only: trim append_assoc fill Replace1_qmark) simp
qed

text \<open>
  C7. For a bag type bound to a slice whose elements the element type prints to the
  literals \<open>ls\<close>, none of which but the last holds a \<open>?\<close>, \<^verbatim>\<open>CQLPretty\<close> replaces the
  leftmost \<open>?\<close> of the query by the element literals, separated by commas, between \<open>[\<close>
  and \<open>]\<close> for a list and between \<open>{\<close> and \<open>}\<close> for a set, and reports one value
  consumed; \<^verbatim>\<open>CQLHolder\<close> is \<open>?\<close> and \<^verbatim>\<open>LenValue\<close> is 1.
\<close>

theorem BagType_CQLPretty_wraps_literals:
  assumes "map (lit (ValueType ct)) s = map Some ls"
    and "\<forall>l \<in> set (butlast ls). CHR ''?'' \<notin> set l"
  shows "(ComplexType ct = TYPE_LIST \<longrightarrow>
            BagType_CQLPretty lit ct query (Slice s # rest) =
              Inr (replace_leftmost query (''['' @ join_comma ls @ '']''), 1))
       \<and> (ComplexType ct = TYPE_SET \<longrightarrow>
            BagType_CQLPretty lit ct query (Slice s # rest) =
              Inr (replace_leftmost query (''{'' @ join_comma ls @ ''}''), 1))
       \<and> BagType_CQLHolder ct = ''?'' \<and> BagType_LenValue ct = 1"
proof -
  have "ComplexType ct = TYPE_LIST \<Longrightarrow> ComplexType ct \<noteq> TYPE_SET"
    by (simp add: TYPE_LIST_def TYPE_SET_def)
  then show ?thesis
    using assms BagType_CQLPretty_Slice[of lit ct s ls query rest]
    by (auto simp: BagType_CQLHolder_def BagType_LenValue_def)
qed

theorem BagType_CQLPretty_wraps_literals_witness:
  "map (text_literal ''text'') [Scalar ''a'', Scalar ''b''] = map Some [quoted ''a'', quoted ''b'']
   \<and> butlast [quoted ''a'', quoted ''b''] = [quoted ''a'']
   \<and> CHR ''?'' \<notin> set (quoted ''a'')
   \<and> BagType_CQLPretty text_literal \<lparr>ComplexType = TYPE_SET, ValueType = ''text'', Frozen = False\<rparr>
       ''INSERT INTO t (c) VALUES (?)'' [Slice [Scalar ''a'', Scalar ''b'']]
     = Inr (''INSERT INTO t (c) VALUES ({'' @ quoted ''a'' @ '','' @ quoted ''b'' @ ''})'', 1)"
  using BagType_CQLPretty_wraps_literals
    [of text_literal "\<lparr>ComplexType = TYPE_SET, ValueType = ''text'', Frozen = False\<rparr>"
        "[Scalar ''a'', Scalar ''b'']" "[quoted ''a'', quoted ''b'']"
        "''INSERT INTO t (c) VALUES (?)''" "[]"]
  by (simp add: replace_leftmost_def quoted_def)

text \<open>
  The bag \<open>['?','a']\<close> of two texts: the literal of the first element holds a \<open>?\<close>, the
  second element is printed into it, and the placeholder of the second element stays.
  The bag of a text and a nil: the nil has no literal as a text, and the call panics.
\<close>

theorem BagType_CQLPretty_literal_with_placeholder:
  "map (text_literal ''text'') [Scalar ''?'', Scalar ''a''] = map Some [quoted ''?'', quoted ''a'']
   \<and> BagType_CQLPretty text_literal \<lparr>ComplexType = TYPE_LIST, ValueType = ''text'', Frozen = False\<rparr>
       ''VALUES (?)'' [Slice [Scalar ''?'', Scalar ''a'']]
     = Inr (''VALUES (['' @ quoted (quoted ''a'') @ '',?])'', 1)
   \<and> replace_leftmost ''VALUES (?)'' (''['' @ join_comma [quoted ''?'', quoted ''a''] @ '']'')
     = ''VALUES (['' @ quoted ''?'' @ '','' @ quoted ''a'' @ ''])''
   \<and> ''VALUES (['' @ quoted (quoted ''a'') @ '',?])'' \<noteq> ''VALUES (['' @ quoted ''?'' @ '','' @ quoted ''a'' @ ''])''
   \<and> text_literal ''text'' NilInterface = None
   \<and> BagType_CQLPretty text_literal \<lparr>ComplexType = TYPE_LIST, ValueType = ''text'', Frozen = False\<rparr>
       ''VALUES (?)'' [Slice [Scalar ''a'', NilInterface]]
     = Inl CqlPrettyMismatch"
  by (simp add: run_CQLPretty replace_leftmost_def)





section \<open>StatementType\<close>

text \<open>
  C6. \<^verbatim>\<open>PossibleAsyncOperation\<close> is true of a statement type exactly when it is
  \<^verbatim>\<open>SelectByIndexStatementType\<close> or \<^verbatim>\<open>SelectFromMaterializedViewStatementType\<close>; it is
  false of every other value of the type.
\<close>

theorem PossibleAsyncOperation_iff:
  "PossibleAsyncOperation SelectByIndexStatementType SelectFromMaterializedViewStatementType st
     = (st = SelectByIndexStatementType \<or> st = SelectFromMaterializedViewStatementType)"
  by (simp add: PossibleAsyncOperation_def)

theorem PossibleAsyncOperation_iff_witness:
  "PossibleAsyncOperation 2 3 2 \<and> PossibleAsyncOperation 2 3 3
   \<and> \<not> PossibleAsyncOperation 2 3 0 \<and> \<not> PossibleAsyncOperation 2 3 255"
  using PossibleAsyncOperation_iff[of 2 3 2] PossibleAsyncOperation_iff[of 2 3 3]
    PossibleAsyncOperation_iff[of 2 3 0] PossibleAsyncOperation_iff[of 2 3 255]
  by simp

section \<open>cqlStore.doMutate\<close>

text \<open>
  C3. A mutation attempt returns nil when the execution returns nil, and when the error of
  the execution is, or wraps, context-canceled or deadline-exceeded (in the sense of
  \<^verbatim>\<open>errors.Is\<close>); every other error of the execution is returned wrapped with the cluster
  and the query.
\<close>

theorem doMutate_swallows_context_errors:
  "cqlStore_doMutate cs queryBody None = None
   \<and> (errors_Is err Canceled \<or> errors_Is err DeadlineExceeded \<longrightarrow>
        cqlStore_doMutate cs queryBody (Some err) = None)
   \<and> (\<not> errors_Is err Canceled \<and> \<not> errors_Is err DeadlineExceeded \<longrightarrow>
        cqlStore_doMutate cs queryBody (Some err) =
          Some (Wrapped (''[cluster = '' @ system cs @ '', query = '' @ quoted queryBody @ '']'') err))"
  by (simp add: cqlStore_doMutate_def errors_Wrapf_def quoted_def)

theorem doMutate_swallows_context_errors_witness:
  "errors_Is DeadlineExceeded DeadlineExceeded
   \<and> cqlStore_doMutate \<lparr>system = ''test'', maxRetriesMutate = 3, maxRetriesMutateSleep = 10,
        useServerSideTimestamps = False\<rparr> ''INSERT'' (Some DeadlineExceeded) = None
   \<and> \<not> errors_Is (Error ''unavailable'') Canceled \<and> \<not> errors_Is (Error ''unavailable'') DeadlineExceeded
   \<and> cqlStore_doMutate \<lparr>system = ''test'', maxRetriesMutate = 3, maxRetriesMutateSleep = 10,
        useServerSideTimestamps = False\<rparr> ''INSERT'' (Some (Error ''unavailable''))
      = Some (Wrapped (''[cluster = test, query = '' @ quoted ''INSERT'' @ '']'') (Error ''unavailable''))"
  using doMutate_swallows_context_errors
    [of "\<lparr>system = ''test'', maxRetriesMutate = 3, maxRetriesMutateSleep = 10,
          useServerSideTimestamps = False\<rparr>" "''INSERT''" DeadlineExceeded]
    doMutate_swallows_context_errors
    [of "\<lparr>system = ''test'', maxRetriesMutate = 3, maxRetriesMutateSleep = 10,
          useServerSideTimestamps = False\<rparr>" "''INSERT''" "Error ''unavailable''"]
  by simp

text \<open>
  An error of the execution that wraps context-canceled is neither context-canceled nor
  deadline-exceeded, and the attempt returns nil for it.
\<close>

theorem doMutate_swallows_wrapped_cancel:
  "Wrapped ''gocql: query failed'' Canceled \<noteq> Canceled
   \<and> Wrapped ''gocql: query failed'' Canceled \<noteq> DeadlineExceeded
   \<and> cqlStore_doMutate \<lparr>system = ''test'', maxRetriesMutate = 3, maxRetriesMutateSleep = 10,
        useServerSideTimestamps = False\<rparr> ''INSERT'' (Some (Wrapped ''gocql: query failed'' Canceled))
      = None"
  by (simp add: cqlStore_doMutate_def)


section \<open>Values.Copy and Stmt.PrettyCQL\<close>

lemmas run_PrettyCQL =
  memory_of_def values_of_def stmt_of_def list_of_text_def pair_of_text_def valid_Values_def
  slice_load_def Stmt_PrettyCQL_def Values_Copy_def make_Values_def builtin_copy_def
  TupleType_CQLPretty_def BagType_LenValue_def clean_literal_def run_CQLPretty

lemma slice_load_length:
  "valid_Values m v \<Longrightarrow> length (slice_load m v) = slen v"
  by (auto simp: valid_Values_def slice_load_def split: option.splits)

lemma Values_Copy_result:
  assumes "valid_Values m v"
  shows "\<exists>m'. Values_Copy m v = (\<lparr>base = lim m, off = 0, slen = slen v, scap = slen v\<rparr>, m')
     \<and> arrays m' = (arrays m)(lim m \<mapsto> slice_load m v) \<and> lim m' = Suc (lim m)"
proof -
  have len: "length (slice_load m v) = slen v"
    using assms by (rule slice_load_length)
  have same: "slice_load (snd (make_Values m (slen v))) v = slice_load m v"
    using assms by (auto simp: valid_Values_def slice_load_def make_Values_def split: option.splits)
  show ?thesis
    using len same
    by (simp add: Values_Copy_def make_Values_def builtin_copy_def Let_def)
qed


lemma Values_Copy_load:
  assumes "valid_Values m v"
  shows "slice_load (snd (Values_Copy m v)) (fst (Values_Copy m v)) = slice_load m v"
  using Values_Copy_result[OF assms] slice_load_length[OF assms]
  by (auto simp: slice_load_def)

lemma Values_Copy_frame:
  assumes "valid_Values m v"
  shows "\<forall>a<lim m. arrays (snd (Values_Copy m v)) a = arrays m a"
  using Values_Copy_result[OF assms] by auto

lemma Values_Copy_keeps:
  assumes "valid_Values m v"
  shows "slice_load (snd (Values_Copy m v)) v = slice_load m v"
  using Values_Copy_result[OF assms] assms
  by (auto simp: slice_load_def valid_Values_def split: option.splits)

lemma Values_Copy_independent:
  assumes "valid_Values m v"
  shows "slice_load (slice_store (snd (Values_Copy m v)) (fst (Values_Copy m v)) i x) v = slice_load m v"
  using Values_Copy_result[OF assms] assms
  by (auto simp: slice_load_def slice_store_def valid_Values_def split: option.splits)

lemma PrettyCQL_memory: "snd (Stmt_PrettyCQL lit m s) = snd (Values_Copy m (Values s))"
  by (simp add: Stmt_PrettyCQL_def Let_def split: prod.splits)



text \<open>
  C10. \<^verbatim>\<open>PrettyCQL\<close> leaves the values bound to the statement as they are: what the
  \<^verbatim>\<open>Values\<close> header of the statement reads from memory after the call is what it read
  before, and no backing array that was allocated before the call has changed. It works on
  the result of \<^verbatim>\<open>Values.Copy\<close>, which reads element by element what the original reads,
  has the same length, and is independent of it: storing into the copy changes nothing of
  what the original reads.
\<close>

theorem PrettyCQL_leaves_Values:
  assumes "valid_Values m (Values s)"
  shows "slice_load (snd (Stmt_PrettyCQL lit m s)) (Values s) = slice_load m (Values s)
    \<and> (\<forall>a<lim m. arrays (snd (Stmt_PrettyCQL lit m s)) a = arrays m a)
    \<and> (let (values, m') = Values_Copy m (Values s)
       in slice_load m' values = slice_load m (Values s)
          \<and> slen values = slen (Values s)
          \<and> (\<forall>i x. slice_load (slice_store m' values i x) (Values s) = slice_load m (Values s)))"
proof -
  obtain vals m' where c: "Values_Copy m (Values s) = (vals, m')"
    by (cases "Values_Copy m (Values s)")
  have "slen vals = slen (Values s)"
    using Values_Copy_result[OF assms] c by auto
  then show ?thesis
    using Values_Copy_load[OF assms] Values_Copy_frame[OF assms] Values_Copy_keeps[OF assms]
      Values_Copy_independent[OF assms] c
    by (simp add: PrettyCQL_memory)
qed

theorem PrettyCQL_leaves_Values_witness:
  "valid_Values (memory_of [Slice [Scalar ''a'', Scalar ''b'']]) (values_of [Slice [Scalar ''a'', Scalar ''b'']])
   \<and> slice_load (memory_of [Slice [Scalar ''a'', Scalar ''b'']]) (values_of [Slice [Scalar ''a'', Scalar ''b'']])
      = [Slice [Scalar ''a'', Scalar ''b'']]
   \<and> slice_load
        (snd (Stmt_PrettyCQL type_literal (memory_of [Slice [Scalar ''a'', Scalar ''b'']])
           (stmt_of ''INSERT INTO t (c) VALUES (?)'' [list_of_text] [Slice [Scalar ''a'', Scalar ''b'']])))
        (values_of [Slice [Scalar ''a'', Scalar ''b'']])
      = [Slice [Scalar ''a'', Scalar ''b'']]"
  using PrettyCQL_leaves_Values[of "memory_of [Slice [Scalar ''a'', Scalar ''b'']]"
      "stmt_of ''INSERT INTO t (c) VALUES (?)'' [list_of_text] [Slice [Scalar ''a'', Scalar ''b'']]"
      type_literal]
  by (simp add: run_PrettyCQL)

lemma count_replace_leftmost:
  "CHR ''?'' \<notin> set new \<Longrightarrow>
   count_list (replace_leftmost q new) (CHR ''?'') = count_list q (CHR ''?'') - 1"
proof (induction q)
  case Nil
  then show ?case by (simp add: replace_leftmost_def)
next
  case (Cons c q)
  then show ?case
    by (cases "c = CHR ''?''") (auto simp: replace_leftmost_def count_list_0_iff)
qed

lemma join_comma_clean:
  "(\<forall>l \<in> set ls. CHR ''?'' \<notin> set l) \<Longrightarrow> CHR ''?'' \<notin> set (join_comma ls)"
  by (induction ls rule: join_comma.induct) auto


lemma replace_holder_clean:
  assumes "clean_literal literal v"
  shows "\<exists>q'. replace_holder literal q (v # vs) = Inr (q', 1)
      \<and> count_list q' (CHR ''?'') = count_list q (CHR ''?'') - 1"
  using assms
  by (auto simp: clean_literal_def replace_holder_def Replace1_qmark count_replace_leftmost
      split: option.splits)

lemma clean_literals:
  "list_all (clean_literal literal) xs \<Longrightarrow>
   \<exists>ls. map literal xs = map Some ls \<and> (\<forall>l \<in> set ls. CHR ''?'' \<notin> set l)"
proof (induction xs)
  case Nil
  then show ?case by simp
next
  case (Cons x xs)
  then obtain ls where ls: "map literal xs = map Some ls" "\<forall>l \<in> set ls. CHR ''?'' \<notin> set l"
    by auto
  from Cons.prems obtain l where l: "literal x = Some l" "CHR ''?'' \<notin> set l"
    by (auto simp: clean_literal_def split: option.splits)
  have "map literal (x # xs) = map Some (l # ls) \<and> (\<forall>l' \<in> set (l # ls). CHR ''?'' \<notin> set l')"
    using ls l by simp
  then show ?case by blast
qed

lemma tuple_fill_clean:
  "list_all2 (\<lambda>c v. clean_literal (lit c) v) cs (take (length cs) vs) \<Longrightarrow>
   \<exists>q'. tuple_fill lit cs q vs = Inr q'
      \<and> count_list q' (CHR ''?'') = count_list q (CHR ''?'') - length cs"
proof (induction cs arbitrary: q vs)
  case Nil
  then show ?case by simp
next
  case (Cons c cs)
  from Cons.prems obtain v vs' where vs: "vs = v # vs'"
    by (cases vs) auto
  with Cons.prems have c: "clean_literal (lit c) v"
    and rest: "list_all2 (\<lambda>c v. clean_literal (lit c) v) cs (take (length cs) vs')"
    by auto
  from replace_holder_clean[OF c, of q vs'] obtain q1 where
    q1: "replace_holder (lit c) q (v # vs') = Inr (q1, 1)"
    and c1: "count_list q1 (CHR ''?'') = count_list q (CHR ''?'') - 1"
    by blast
  from Cons.IH[OF rest, of q1] obtain q' where
    "tuple_fill lit cs q1 vs' = Inr q'"
    "count_list q' (CHR ''?'') = count_list q1 (CHR ''?'') - length cs"
    by blast
  then show ?case
    using vs q1 c1 by (simp add: SimpleType_CQLPretty_def)
qed

lemma Type_LenValue_nonneg: "0 \<le> Type_LenValue t"
  by (cases t) (simp_all add: BagType_LenValue_def)

lemma Type_CQLPretty_clean:
  assumes len: "nat (Type_LenValue t) \<le> length vs"
    and clean: "prints_clean lit t (take (nat (Type_LenValue t)) vs)"
  shows "\<exists>q'. Type_CQLPretty lit t q vs = Inr (q', Type_LenValue t)
      \<and> count_list q' (CHR ''?'') = count_list q (CHR ''?'') - nat (Type_LenValue t)"
proof -
  have one: ?thesis
    if t1: "Type_LenValue t = 1"
      and pr: "Type_CQLPretty lit t q vs = replace_holder (lit t) q vs"
      and cl: "\<And>v. take 1 vs = [v] \<Longrightarrow> clean_literal (lit t) v"
  proof -
    from len t1 obtain v vs' where vs: "vs = v # vs'"
      by (cases vs) auto
    then have "clean_literal (lit t) v" using cl by simp
    from replace_holder_clean[OF this, of q vs'] show ?thesis
      using t1 pr vs by simp
  qed
  show ?thesis
  proof (cases t)
    case (Simple st)
    with clean show ?thesis
      by (intro one) (auto simp: SimpleType_CQLPretty_def split: list.splits)
  next
    case (Map kt vt)
    with clean show ?thesis
      by (intro one) (auto split: list.splits)
  next
    case (UDT name fields frozen)
    with clean show ?thesis
      by (intro one) (auto split: list.splits)
  next
    case Counter
    with clean show ?thesis
      by (intro one) (auto split: list.splits)
  next
    case (Bag ct)
    from len Bag obtain v vs' where vs: "vs = v # vs'"
      by (cases vs) (auto simp: BagType_LenValue_def)
    with clean Bag obtain xs where v: "v = Slice xs"
      and all: "list_all (clean_literal (lit (Simple (ValueType ct)))) xs"
      by (auto simp: BagType_LenValue_def split: gvalue.splits)
    from clean_literals[OF all] obtain ls where
      ls: "map (\<lambda>x. lit (Simple (ValueType ct)) x) xs = map Some ls"
      and free: "\<forall>l \<in> set ls. CHR ''?'' \<notin> set l"
      by blast
    have bl: "\<forall>l \<in> set (butlast ls). CHR ''?'' \<notin> set l"
      using free by (auto dest: in_set_butlastD)
    have eq: "BagType_CQLPretty (\<lambda>st. lit (Simple st)) ct q (Slice xs # vs') =
       Inr (replace_leftmost q ((if ComplexType ct = TYPE_SET then ''{'' else ''['') @
          join_comma ls @ (if ComplexType ct = TYPE_SET then ''}'' else '']'')), 1)"
      using BagType_CQLPretty_Slice[of "\<lambda>st. lit (Simple st)" ct xs ls q vs'] ls bl by simp
    have "CHR ''?'' \<notin> set ((if ComplexType ct = TYPE_SET then ''{'' else ''['') @
          join_comma ls @ (if ComplexType ct = TYPE_SET then ''}'' else '']''))"
      using join_comma_clean[of ls] free by auto
    then show ?thesis
      using Bag vs v eq by (simp add: count_replace_leftmost BagType_LenValue_def)
  next
    case (Tuple cs)
    with clean have all: "list_all2 (\<lambda>c v. clean_literal (lit (Simple c)) v) cs (take (length cs) vs)"
      by simp
    from tuple_fill_clean[of "\<lambda>st. lit (Simple st)" cs vs q, OF all] obtain q' where
      q': "tuple_fill (\<lambda>st. lit (Simple st)) cs q vs = Inr q'"
        "count_list q' (CHR ''?'') = count_list q (CHR ''?'') - length cs"
      by blast
    show ?thesis
    proof (cases "vs = []")
      case True
      with len Tuple have "cs = []" by simp
      with True Tuple show ?thesis by (simp add: TupleType_CQLPretty_def)
    next
      case False
      with Tuple q' show ?thesis by (simp add: TupleType_CQLPretty_def)
    qed
  qed
qed

lemma pretty_loop_clean:
  "prints_all_clean lit ts vs \<Longrightarrow>
   \<exists>q'. pretty_loop lit ts q vs = Inr q'
      \<and> count_list q' (CHR ''?'') = count_list q (CHR ''?'') - nat (sum_list (map Type_LenValue ts))"
proof (induction ts arbitrary: q vs)
  case Nil
  then show ?case by simp
next
  case (Cons t ts)
  define n where "n = nat (Type_LenValue t)"
  have n: "Type_LenValue t = int n"
    using Type_LenValue_nonneg[of t] by (simp add: n_def)
  from Cons.prems have len: "n \<le> length vs"
    and clean: "prints_clean lit t (take n vs)"
    and rest: "prints_all_clean lit ts (drop n vs)"
    by (simp_all add: n_def)
  have "\<exists>q'. Type_CQLPretty lit t q vs = Inr (q', Type_LenValue t)
      \<and> count_list q' (CHR ''?'') = count_list q (CHR ''?'') - nat (Type_LenValue t)"
    using len clean unfolding n_def by (rule Type_CQLPretty_clean)
  then obtain q1 where
    q1: "Type_CQLPretty lit t q vs = Inr (q1, int n)"
    and c1: "count_list q1 (CHR ''?'') = count_list q (CHR ''?'') - n"
    unfolding n by auto
  from Cons.IH[OF rest, of q1] obtain q' where
    q': "pretty_loop lit ts q1 (drop n vs) = Inr q'"
    and c': "count_list q' (CHR ''?'') = count_list q1 (CHR ''?'') - nat (sum_list (map Type_LenValue ts))"
    by blast
  have "0 \<le> sum_list (map Type_LenValue ts)"
    by (rule sum_list_nonneg) (auto simp: Type_LenValue_nonneg)
  then have "nat (sum_list (map Type_LenValue (t # ts))) = n + nat (sum_list (map Type_LenValue ts))"
    using n by simp
  then show ?case
    using q1 q' c1 c' len by simp
qed

text \<open>
  C1. For a statement whose values are at least as many as its types declare, whose query
  holds at most as many \<open>?\<close> as its types declare, and each of whose types prints the values
  bound to it cleanly (every value matches and no literal holds a \<open>?\<close>), \<^verbatim>\<open>PrettyCQL\<close>
  returns a query without any \<open>?\<close>.
\<close>

theorem PrettyCQL_replaces_all_placeholders:
  assumes valid: "valid_Values m (Values s)"
    and enough: "sum_list (map Type_LenValue (Types (StmtCache s))) \<le> int (slen (Values s))"
    and holders: "int (count_list (Query (StmtCache s)) (CHR ''?''))
                    \<le> sum_list (map Type_LenValue (Types (StmtCache s)))"
    and clean: "prints_all_clean lit (Types (StmtCache s)) (slice_load m (Values s))"
  shows "\<exists>q. fst (Stmt_PrettyCQL lit m s) = Inr q \<and> CHR ''?'' \<notin> set q"
proof -
  obtain vals m' where c: "Values_Copy m (Values s) = (vals, m')"
    by (cases "Values_Copy m (Values s)")
  have len: "slen vals = slen (Values s)"
    using Values_Copy_result[OF valid] c by auto
  have load: "slice_load m' vals = slice_load m (Values s)"
    using Values_Copy_load[OF valid] c by simp
  show ?thesis
  proof (cases "slen vals = 0")
    case True
    then have "count_list (Query (StmtCache s)) (CHR ''?'') = 0"
      using enough holders len by simp
    then show ?thesis
      using c True by (simp add: Stmt_PrettyCQL_def count_list_0_iff)
  next
    case False
    from pretty_loop_clean[OF clean, of "Query (StmtCache s)"] obtain q where
      q: "pretty_loop lit (Types (StmtCache s)) (Query (StmtCache s)) (slice_load m (Values s)) = Inr q"
      and cnt: "count_list q (CHR ''?'') = count_list (Query (StmtCache s)) (CHR ''?'')
          - nat (sum_list (map Type_LenValue (Types (StmtCache s))))"
      by blast
    have "count_list q (CHR ''?'') = 0"
      using cnt holders by simp
    then show ?thesis
      using c False q load by (simp add: Stmt_PrettyCQL_def count_list_0_iff)
  qed
qed


theorem PrettyCQL_replaces_all_placeholders_witness:
  "valid_Values (memory_of [Scalar ''a'', Scalar ''b'', Slice [Scalar ''c'']])
     (values_of [Scalar ''a'', Scalar ''b'', Slice [Scalar ''c'']])
   \<and> sum_list (map Type_LenValue [pair_of_text, list_of_text]) = 3
   \<and> int (slen (values_of [Scalar ''a'', Scalar ''b'', Slice [Scalar ''c'']])) = 3
   \<and> count_list ''INSERT INTO t (p, l) VALUES ((?,?), ?)'' (CHR ''?'') = 3
   \<and> prints_all_clean type_literal [pair_of_text, list_of_text]
        [Scalar ''a'', Scalar ''b'', Slice [Scalar ''c'']]
   \<and> fst (Stmt_PrettyCQL type_literal (memory_of [Scalar ''a'', Scalar ''b'', Slice [Scalar ''c'']])
         (stmt_of ''INSERT INTO t (p, l) VALUES ((?,?), ?)'' [pair_of_text, list_of_text]
            [Scalar ''a'', Scalar ''b'', Slice [Scalar ''c'']]))
      = Inr (''INSERT INTO t (p, l) VALUES (('' @ quoted ''a'' @ '','' @ quoted ''b'' @ ''), [''
             @ quoted ''c'' @ ''])'')"
  using PrettyCQL_replaces_all_placeholders
    [of "memory_of [Scalar ''a'', Scalar ''b'', Slice [Scalar ''c'']]"
      "stmt_of ''INSERT INTO t (p, l) VALUES ((?,?), ?)'' [pair_of_text, list_of_text]
         [Scalar ''a'', Scalar ''b'', Slice [Scalar ''c'']]"
      type_literal]
  by (simp add: run_PrettyCQL)

text \<open>
  Statements whose values are as many as their types declare and for which \<^verbatim>\<open>PrettyCQL\<close>
  does not return a query without \<open>?\<close>: one without types and values, whose query is
  returned as it is; one whose bag of texts holds the text \<open>?\<close>, which is printed as the
  literal \<open>'?'\<close>; and one whose bag type is bound to a text, where \<^verbatim>\<open>PrettyCQL\<close> panics.
\<close>

theorem PrettyCQL_placeholder_remains:
  "sum_list (map Type_LenValue ([] :: string Type list)) \<le> int (slen (values_of ([] :: string gvalue list)))
   \<and> fst (Stmt_PrettyCQL type_literal (memory_of []) (stmt_of ''SELECT * FROM t WHERE pk = ?'' [] []))
      = Inr ''SELECT * FROM t WHERE pk = ?''
   \<and> CHR ''?'' \<in> set ''SELECT * FROM t WHERE pk = ?''
   \<and> sum_list (map Type_LenValue [list_of_text]) \<le> int (slen (values_of [Slice [Scalar ''?'']]))
   \<and> fst (Stmt_PrettyCQL type_literal (memory_of [Slice [Scalar ''?'']])
         (stmt_of ''INSERT INTO t (c) VALUES (?)'' [list_of_text] [Slice [Scalar ''?'']]))
      = Inr (''INSERT INTO t (c) VALUES (['' @ quoted ''?'' @ ''])'')
   \<and> CHR ''?'' \<in> set (''INSERT INTO t (c) VALUES (['' @ quoted ''?'' @ ''])'')
   \<and> sum_list (map Type_LenValue [list_of_text]) \<le> int (slen (values_of [Scalar ''a'']))
   \<and> fst (Stmt_PrettyCQL type_literal (memory_of [Scalar ''a''])
         (stmt_of ''INSERT INTO t (c) VALUES (?)'' [list_of_text] [Scalar ''a'']))
      = Inl SetCqlPrettyUnknownType"
  by (simp add: run_PrettyCQL)

section \<open>BagType.GenValue\<close>

lemma bag_gen_loop_length:
  "\<exists>out r'. bag_gen_loop gen vt n r p = Inr (out, r') \<and> length out = n"
proof (induction n arbitrary: r)
  case 0
  then show ?case by simp
next
  case (Suc n)
  obtain v r1 where g: "gen vt r p = (v, r1)"
    by (cases "gen vt r p")
  from Suc[of r1] obtain out r2 where "bag_gen_loop gen vt n r1 p = Inr (out, r2)" "length out = n"
    by blast
  with g show ?case
    by (simp add: SimpleType_GenValue_def)
qed

lemma RandInt2_range:
  assumes "lo < hi"
  shows "lo \<le> fst (RandInt2 r lo hi) \<and> fst (RandInt2 r lo hi) < hi"
proof -
  have val: "fst (RandInt2 r lo hi) = lo + int (r 0) mod (hi - lo)"
    using assms by (simp add: RandInt2_def)
  have "0 \<le> int (r 0) mod (hi - lo)" and "int (r 0) mod (hi - lo) < hi - lo"
    using assms by simp_all
  then show ?thesis
    unfolding val by linarith
qed


text \<open>
  C8. For every bag type, random source and range configuration, \<^verbatim>\<open>GenValue\<close> returns one
  cell, a slice, whose number of elements is at least 1 and at most \<^verbatim>\<open>maxBagSize\<close>.
\<close>

theorem BagType_GenValue_size:
  "\<exists>out r'. BagType_GenValue gen ct r p = Inr ([Slice out], r')
      \<and> 1 \<le> length out \<and> int (length out) \<le> maxBagSize"
proof -
  obtain count r1 where c: "RandInt2 r 1 (maxBagSize + 1) = (count, r1)"
    by (cases "RandInt2 r 1 (maxBagSize + 1)")
  have "1 \<le> count \<and> count < maxBagSize + 1"
    using RandInt2_range[of 1 "maxBagSize + 1" r] c by (simp add: maxBagSize_def)
  moreover obtain out r2 where
    "bag_gen_loop gen (ValueType ct) (nat count) r1 p = Inr (out, r2)" "length out = nat count"
    using bag_gen_loop_length[of gen "ValueType ct" "nat count" r1 p] by blast
  ultimately show ?thesis
    using c by (auto simp: BagType_GenValue_def)
qed


theorem BagType_GenValue_size_witness:
  "map_sum id fst
     (BagType_GenValue gen_draw \<lparr>ComplexType = TYPE_LIST, ValueType = ''int'', Frozen = False\<rparr>
        (\<lambda>n. n + 12) range_config)
   = Inr [Slice [Scalar 13, Scalar 14, Scalar 15]]"
  using BagType_GenValue_size[of gen_draw
      "\<lparr>ComplexType = TYPE_LIST, ValueType = ''int'', Frozen = False\<rparr>" "\<lambda>n. n + 12" range_config]
  by (simp add: BagType_GenValue_def RandInt2_def maxBagSize_def rand_next_def gen_draw_def
      SimpleType_GenValue_def numeral_3_eq_3)


section \<open>MixedJob\<close>

lemma wrap64_id: "- (2 ^ 63) \<le> x \<Longrightarrow> x < 2 ^ 63 \<Longrightarrow> wrap64 x = x"
  by (simp add: wrap64_def)

lemma MixedJob_loop_split:
  "j \<le> i \<Longrightarrow> i \<le> n \<Longrightarrow>
   MixedJob_loop s n j st = MixedJob_loop s n i (MixedJob_loop s i j st)"
proof (induction s i j st rule: MixedJob_loop.induct)
  case (1 s i j st)
  show ?case
  proof (cases "j < i")
    case True
    then have "MixedJob_loop s n j st = MixedJob_loop s n (j + 1) (MixedJob_body s j st)"
      using "1.prems" by (subst MixedJob_loop.simps) simp
    also have "\<dots> = MixedJob_loop s n i (MixedJob_loop s i (j + 1) (MixedJob_body s j st))"
      using True "1.prems" by (intro "1.IH") simp_all
    also have "MixedJob_loop s i (j + 1) (MixedJob_body s j st) = MixedJob_loop s i j st"
      using True by (subst (2) MixedJob_loop.simps) simp
    finally show ?thesis .
  next
    case False
    then have "MixedJob_loop s i j st = st"
      by (subst MixedJob_loop.simps) simp
    moreover have "j = i" using False "1.prems" by simp
    ultimately show ?thesis by simp
  qed
qed

lemma MixedJob_loop_last:
  "MixedJob_loop s (i + 1) i st = MixedJob_body s i st"
  by (subst MixedJob_loop.simps, subst MixedJob_loop.simps) simp

lemma MixedJob_Suc:
  assumes "0 \<le> i"
  shows "MixedJob s (i + 1) = MixedJob_body s i (MixedJob s i)"
  using MixedJob_loop_split[of 0 i "i + 1" s] assms
  by (simp add: MixedJob_def MixedJob_loop_last)

lemma MixedJob_zero: "MixedJob s 0 = \<lparr>WriteOps = 0, WriteErrors = 0, ReadOps = 0, ReadErrors = 0\<rparr>"
  by (simp add: MixedJob_def MixedJob_loop.simps)

lemma MixedJob_body_exact:
  assumes "counters_upto n st" and "n < max_int64"
  shows "MixedJob_body s i st =
     st\<lparr>WriteOps := WriteOps st + 1,
        WriteErrors := (if Mutate s (nat i) \<noteq> None then WriteErrors st + 1 else WriteErrors st),
        ReadOps := (if Check s (nat i) = None then ReadOps st + 1 else ReadOps st),
        ReadErrors := (if Check s (nat i) \<noteq> None \<and> Check s (nat i) \<noteq> Some ErrReadNoDataReturned
                       then ReadErrors st + 1 else ReadErrors st)\<rparr>"
proof -
  have w: "\<And>c. 0 \<le> c \<Longrightarrow> c \<le> n \<Longrightarrow> wrap64 (c + 1) = c + 1"
    using assms(2) by (intro wrap64_id) (simp_all add: max_int64_def)
  show ?thesis
    using assms(1) by (simp add: MixedJob_body_def counters_upto_def w Let_def)
qed

lemma MixedJob_counters:
  "int k \<le> max_int64 \<Longrightarrow> counters_upto (int k) (MixedJob s (int k))"
proof (induction k)
  case 0
  then show ?case by (simp add: MixedJob_zero counters_upto_def)
next
  case (Suc k)
  then have ih: "counters_upto (int k) (MixedJob s (int k))" and lt: "int k < max_int64"
    by simp_all
  have "MixedJob s (int (Suc k)) = MixedJob_body s (int k) (MixedJob s (int k))"
    using MixedJob_Suc[of "int k" s] by (simp add: add.commute)
  then show ?case
    using ih by (simp add: MixedJob_body_exact[OF ih lt] counters_upto_def)
qed


text \<open>
  C4. \<open>MixedJob s i\<close> is the status of the worker after its first \<open>i\<close> iterations: a run
  of \<open>maxTests\<close> iterations goes through it and applies the body of iteration \<open>i\<close> to it.
  In that iteration a check that returns \<^verbatim>\<open>ErrReadNoDataReturned\<close> changes neither
  \<^verbatim>\<open>ReadOps\<close> nor \<^verbatim>\<open>ReadErrors\<close>, a check that returns nil adds one to \<^verbatim>\<open>ReadOps\<close> and
  leaves \<^verbatim>\<open>ReadErrors\<close>, and a check that returns any other error adds one to
  \<^verbatim>\<open>ReadErrors\<close> and leaves \<^verbatim>\<open>ReadOps\<close>. (\<open>maxTests\<close> is a Go \<^verbatim>\<open>int\<close>.)
\<close>

theorem MixedJob_counts_reads:
  assumes "0 \<le> i" and "i < maxTests" and "maxTests \<le> max_int64"
  shows "MixedJob s maxTests = MixedJob_loop s maxTests (i + 1) (MixedJob_body s i (MixedJob s i))
    \<and> (Check s (nat i) = Some ErrReadNoDataReturned \<longrightarrow>
          ReadOps (MixedJob_body s i (MixedJob s i)) = ReadOps (MixedJob s i) \<and>
          ReadErrors (MixedJob_body s i (MixedJob s i)) = ReadErrors (MixedJob s i))
    \<and> (Check s (nat i) = None \<longrightarrow>
          ReadOps (MixedJob_body s i (MixedJob s i)) = ReadOps (MixedJob s i) + 1 \<and>
          ReadErrors (MixedJob_body s i (MixedJob s i)) = ReadErrors (MixedJob s i))
    \<and> (Check s (nat i) \<noteq> None \<and> Check s (nat i) \<noteq> Some ErrReadNoDataReturned \<longrightarrow>
          ReadOps (MixedJob_body s i (MixedJob s i)) = ReadOps (MixedJob s i) \<and>
          ReadErrors (MixedJob_body s i (MixedJob s i)) = ReadErrors (MixedJob s i) + 1)"
proof -
  have run: "MixedJob s maxTests = MixedJob_loop s maxTests (i + 1) (MixedJob s (i + 1))"
    using MixedJob_loop_split[of 0 "i + 1" maxTests s] assms by (simp add: MixedJob_def)
  have cnt: "counters_upto i (MixedJob s i)"
    using MixedJob_counters[of "nat i" s] assms by simp
  have lt: "i < max_int64" using assms by simp
  show ?thesis
    using run MixedJob_Suc[OF assms(1), of s]
    by (simp add: MixedJob_body_exact[OF cnt lt])
qed

theorem MixedJob_counts_reads_witness:
  "(0::int) \<le> 2 \<and> (2::int) < 3 \<and> 3 \<le> max_int64
   \<and> Check (session_of (Error ''write failed'')) 0 = None
   \<and> ReadOps (MixedJob (session_of (Error ''write failed'')) 0) = 0
   \<and> ReadOps (MixedJob_body (session_of (Error ''write failed'')) 0
        (MixedJob (session_of (Error ''write failed'')) 0)) = 1
   \<and> Check (session_of (Error ''write failed'')) 1 = Some ErrReadNoDataReturned
   \<and> MixedJob (session_of (Error ''write failed'')) 1
      = \<lparr>WriteOps = 1, WriteErrors = 0, ReadOps = 1, ReadErrors = 0\<rparr>
   \<and> MixedJob_body (session_of (Error ''write failed'')) 1 (MixedJob (session_of (Error ''write failed'')) 1)
      = \<lparr>WriteOps = 2, WriteErrors = 1, ReadOps = 1, ReadErrors = 0\<rparr>
   \<and> Check (session_of (Error ''write failed'')) 2 = Some (Error ''rows differ'')
   \<and> MixedJob (session_of (Error ''write failed'')) 3
      = \<lparr>WriteOps = 3, WriteErrors = 2, ReadOps = 1, ReadErrors = 1\<rparr>"
  using MixedJob_counts_reads[of 0 3 "session_of (Error ''write failed'')"]
    MixedJob_counts_reads[of 1 3 "session_of (Error ''write failed'')"]
    MixedJob_counts_reads[of 2 3 "session_of (Error ''write failed'')"]
  by (simp add: session_of_def MixedJob_def MixedJob_loop.simps MixedJob_body_def wrap64_def max_int64_def)

section \<open>cqlStore.mutate\<close>










section \<open>runJob\<close>

lemma runJob_loop_exact:
  "1 \<le> K \<Longrightarrow> N * K \<le> max_int64 \<Longrightarrow> 0 \<le> i \<Longrightarrow> i \<le> N \<Longrightarrow>
   runJob_loop N 0 K i = map (range_at K) [i..N - 1]"
proof (induction N "0::int" K i rule: runJob_loop.induct)
  case (1 N K i)
  note K = \<open>1 \<le> K\<close> and NK = \<open>N * K \<le> max_int64\<close>
  show ?case
  proof (cases "i < N")
    case True
    have le: "(i + 1) * K \<le> N * K"
      using True K by (intro mult_right_mono) linarith+
    have lo: "0 \<le> i * K"
      using "1.prems" by simp
    have "i * K \<le> (i + 1) * K"
      using K by (simp add: distrib_right)
    then have w1: "wrap64 (i * K) = i * K"
      using lo le NK by (intro wrap64_id) (simp_all add: max_int64_def)
    have w2: "wrap64 (K + i * K) = (i + 1) * K"
      using lo le NK K by (subst wrap64_id) (simp_all add: max_int64_def distrib_right)
    have "runJob_loop N 0 K i = range_at K i # runJob_loop N 0 K (i + 1)"
      using True by (subst runJob_loop.simps) (simp add: w1 w2 range_at_def)
    also have "runJob_loop N 0 K (i + 1) = map (range_at K) [i + 1..N - 1]"
      using True "1.prems" by (intro "1.hyps") simp_all
    finally show ?thesis
      using True by (simp add: upto_rec1[of i "N - 1"])
  next
    case False
    then show ?thesis
      using "1.prems" by (subst runJob_loop.simps) simp
  qed
qed

lemma runJob_exact:
  assumes "1 \<le> N" and "1 \<le> K" and "N * K \<le> max_int64"
  shows "runJob N K = map (range_at K) [0..N - 1]"
  using runJob_loop_exact[of K N 0] assms by (simp add: runJob_def)

lemma keys_disjoint:
  assumes "1 \<le> K" and "i < j"
  shows "PartitionRange_keys (range_at K i) \<inter> PartitionRange_keys (range_at K j) = {}"
proof -
  have "(i + 1) * K \<le> j * K"
    using assms by (intro mult_right_mono) linarith+
  then show ?thesis
    by (auto simp: PartitionRange_keys_def range_at_def)
qed

lemma keys_union:
  assumes "1 \<le> N" and "1 \<le> K"
  shows "(\<Union>i \<in> {0..N - 1}. PartitionRange_keys (range_at K i)) = {0..<N * K}"
proof (intro set_eqI iffI)
  fix x
  assume "x \<in> (\<Union>i \<in> {0..N - 1}. PartitionRange_keys (range_at K i))"
  then obtain i where i: "0 \<le> i" "i \<le> N - 1" "i * K \<le> x" "x < (i + 1) * K"
    by (auto simp: PartitionRange_keys_def range_at_def)
  have "0 \<le> i * K" using i(1) assms(2) by simp
  moreover have "(i + 1) * K \<le> N * K"
    using i(2) assms(2) by (intro mult_right_mono) linarith+
  ultimately show "x \<in> {0..<N * K}"
    using i by simp
next
  fix x
  assume "x \<in> {0..<N * K}"
  then have x: "0 \<le> x" "x < N * K" by simp_all
  define i where "i = x div K"
  have K: "0 < K" using assms(2) by simp
  have dm: "i * K + x mod K = x"
    by (simp add: i_def)
  have "0 \<le> x mod K" and "x mod K < K"
    using K by simp_all
  then have in_i: "i * K \<le> x" "x < (i + 1) * K"
    using dm by (simp_all add: distrib_right)
  have "0 \<le> i" using x(1) K by (simp add: i_def pos_imp_zdiv_nonneg_iff)
  moreover have "i < N"
  proof (rule ccontr)
    assume "\<not> i < N"
    then have "N * K \<le> i * K"
      using K by (intro mult_right_mono) linarith+
    then show False using in_i(1) x(2) by simp
  qed
  ultimately show "x \<in> (\<Union>i \<in> {0..N - 1}. PartitionRange_keys (range_at K i))"
    using in_i by (auto simp: PartitionRange_keys_def range_at_def intro!: bexI[of _ i])
qed


text \<open>
  C5. For \<open>N \<ge> 1\<close> workers and \<open>K \<ge> 1\<close> keys per worker whose product \<open>N * K\<close> is a Go
  \<^verbatim>\<open>int\<close>, the coordinator starts \<open>N\<close> workers and hands worker \<open>i\<close> the range
  \<open>[i*K, (i+1)*K)\<close>; the ranges are pairwise disjoint and their union is \<open>[0, N*K)\<close>.
\<close>

theorem runJob_ranges:
  assumes "1 \<le> N" and "1 \<le> K" and "N * K \<le> max_int64"
  shows "length (runJob N K) = nat N
    \<and> (\<forall>i<nat N. runJob N K ! i = \<lparr>Min_pk = int i * K, Max_pk = (int i + 1) * K\<rparr>)
    \<and> (\<forall>i<nat N. \<forall>j<nat N. i \<noteq> j \<longrightarrow>
          PartitionRange_keys (runJob N K ! i) \<inter> PartitionRange_keys (runJob N K ! j) = {})
    \<and> (\<Union>p \<in> set (runJob N K). PartitionRange_keys p) = {0..<N * K}"
proof -
  note ex = runJob_exact[OF assms]
  have len: "length (runJob N K) = nat N"
    using assms(1) by (simp add: ex)
  have nth: "runJob N K ! i = range_at K (int i)" if "i < nat N" for i
    using that by (simp add: ex)
  have disj: "PartitionRange_keys (runJob N K ! i) \<inter> PartitionRange_keys (runJob N K ! j) = {}"
    if "i < nat N" "j < nat N" "i \<noteq> j" for i j
  proof (cases "i < j")
    case True
    then show ?thesis
      using keys_disjoint[OF assms(2), of "int i" "int j"] that by (simp add: nth)
  next
    case False
    then have "j < i" using that by simp
    then show ?thesis
      using keys_disjoint[OF assms(2), of "int j" "int i"] that by (simp add: nth Int_commute)
  qed
  have un: "(\<Union>p \<in> set (runJob N K). PartitionRange_keys p) = {0..<N * K}"
    using keys_union[OF assms(1,2)] by (simp add: ex)
  show ?thesis
    using len nth disj un by (simp add: range_at_def)
qed


theorem runJob_ranges_witness:
  "(1::int) \<le> 2 \<and> (1::int) \<le> 3 \<and> 2 * 3 \<le> max_int64
   \<and> runJob 2 3 = [\<lparr>Min_pk = 0, Max_pk = 3\<rparr>, \<lparr>Min_pk = 3, Max_pk = 6\<rparr>]"
  using runJob_ranges[of 2 3]
  by (simp add: runJob_def runJob_loop.simps wrap64_def max_int64_def)

text \<open>
  Two workers with \<open>2^62\<close> keys each: the upper bound of the second range wraps around to
  \<open>-2^63\<close>, so that the range is empty instead of \<open>[2^62, 2^63)\<close>.
\<close>

theorem runJob_range_overflows:
  "runJob 2 (2 ^ 62) ! 1 = \<lparr>Min_pk = 2 ^ 62, Max_pk = - (2 ^ 63)\<rparr>
   \<and> PartitionRange_keys (runJob 2 (2 ^ 62) ! 1) = {}
   \<and> (1 + 1) * (2 ^ 62 :: int) = 2 ^ 63"
  by (simp add: runJob_def runJob_loop.simps wrap64_def PartitionRange_keys_def)


end
